theory Spec2Isabelle
  imports Complex_Main "HOL-Library.Multiset"
begin

section \<open>Data model: frames, errors, the random generator\<close>

text \<open>
  The notebook's \<^verbatim>\<open>split_to_train_val_test(df, label_column, splits, verbose)\<close> works on a
  pandas frame. A frame is modelled as its list of column names and its list of rows; a row is
  its index label (the item's identifier) together with its cells, an association list from
  column names to values; a column without an entry is a missing cell (NaN).

  Ratios are Python floats in the source; they are modelled as exact rationals, so the
  binary rounding error of \<^verbatim>\<open>frac * len\<close> is not part of the model. \<^verbatim>\<open>verbose\<close> only prints
  and is left out.
\<close>

type_synonym ('i, 'v) row = "'i \<times> (string \<times> 'v) list"

record ('i, 'v) dataframe =
  columns :: "string list"
  rows :: "('i, 'v) row list"

datatype error = KeyError | ValueError | ZeroDivisionError

text \<open>\<^verbatim>\<open>pd.DataFrame()\<close>: no columns, no rows.\<close>

definition DataFrame :: "('i, 'v) dataframe" where
  "DataFrame = \<lparr>columns = [], rows = []\<rparr>"

text \<open>\<^verbatim>\<open>d.index\<close>: the index labels, in row order.\<close>

definition index :: "('i, 'v) dataframe \<Rightarrow> 'i list" where
  "index d = map fst (rows d)"

text \<open>The cell of a row in column \<open>c\<close>; \<open>None\<close> is NaN.\<close>

definition cell :: "('i, 'v) row \<Rightarrow> string \<Rightarrow> 'v option" where
  "cell r c = map_of (snd r) c"

text \<open>\<^verbatim>\<open>d[c]\<close>: the column as a list of cells; KeyError when the frame has no such column.\<close>

definition getitem :: "('i, 'v) dataframe \<Rightarrow> string \<Rightarrow> error + 'v option list" where
  "getitem d c =
     (if c \<in> set (columns d) then Inr (map (\<lambda>r. cell r c) (rows d)) else Inl KeyError)"

text \<open>\<^verbatim>\<open>Series.unique()\<close>: the distinct values in order of first appearance.\<close>

fun unique :: "'a list \<Rightarrow> 'a list" where
  "unique [] = []"
| "unique (x # xs) = x # unique (filter (\<lambda>y. y \<noteq> x) xs)"

text \<open>Elementwise \<^verbatim>\<open>==\<close> of pandas: NaN equals nothing, not even NaN.\<close>

definition cell_eq :: "'v option \<Rightarrow> 'v option \<Rightarrow> bool" where
  "cell_eq a b =
     (case a of None \<Rightarrow> False
      | Some x \<Rightarrow> (case b of None \<Rightarrow> False | Some y \<Rightarrow> x = y))"

text \<open>\<^verbatim>\<open>d[d[c] == lbl]\<close>: the rows whose cell in column \<open>c\<close> equals \<open>lbl\<close>.\<close>

definition mask_eq :: "('i, 'v) dataframe \<Rightarrow> string \<Rightarrow> 'v option \<Rightarrow> ('i, 'v) dataframe" where
  "mask_eq d c lbl = d\<lparr>rows := filter (\<lambda>r. cell_eq (cell r c) lbl) (rows d)\<rparr>"

text \<open>
  \<^verbatim>\<open>sample\<close> is called without \<^verbatim>\<open>random_state\<close>, so it draws from numpy's process-global
  generator. The generator's state is the infinite tape of the draws still to come; a call
  reads the head and leaves the tail. \<^verbatim>\<open>random_interval(max)\<close> yields a number in \<open>[0, max]\<close>;
  how numpy masks and rejects raw bits to get there is not modelled, the tape holds the draws
  and the model reduces them into the range.
\<close>

type_synonym bitgen = "nat \<Rightarrow> nat"

definition random_interval :: "bitgen \<Rightarrow> nat \<Rightarrow> nat \<times> bitgen" where
  "random_interval g mx = (g 0 mod Suc mx, \<lambda>k. g (Suc k))"

text \<open>\<^verbatim>\<open>x[i], x[j] = x[j], x[i]\<close>\<close>

definition swap :: "'a list \<Rightarrow> nat \<Rightarrow> nat \<Rightarrow> 'a list" where
  "swap xs i j = (let a = xs ! i; b = xs ! j in (xs[i := b])[j := a])"

text \<open>
  numpy's shuffle: \<^verbatim>\<open>for i in reversed(range(1, n)): j = random_interval(i); swap(i, j)\<close>.
  \<open>shuffle_loop i\<close> runs the iterations \<open>i, i - 1, \<dots>, 1\<close>.
\<close>

fun shuffle_loop :: "nat \<Rightarrow> 'a list \<Rightarrow> bitgen \<Rightarrow> 'a list \<times> bitgen" where
  "shuffle_loop 0 xs g = (xs, g)"
| "shuffle_loop (Suc i) xs g =
     (case random_interval g (Suc i) of
        (j, g') \<Rightarrow> shuffle_loop i (swap xs (Suc i) j) g')"

text \<open>\<^verbatim>\<open>permutation(n)\<close>: shuffle of \<^verbatim>\<open>arange(n)\<close>.\<close>

definition permutation :: "nat \<Rightarrow> bitgen \<Rightarrow> nat list \<times> bitgen" where
  "permutation n g = shuffle_loop (n - 1) [0..<n] g"

text \<open>
  \<^verbatim>\<open>choice(pop, size=sz, replace=False)\<close>: the first \<open>sz\<close> entries of a permutation;
  ValueError when the sample is larger than the population.
\<close>

definition choice :: "nat \<Rightarrow> nat \<Rightarrow> bitgen \<Rightarrow> error + (nat list \<times> bitgen)" where
  "choice pop sz g =
     (if pop < sz then Inl ValueError
      else case permutation pop g of (p, g') \<Rightarrow> Inr (take sz p, g'))"

text \<open>Python's \<^verbatim>\<open>round\<close> to an integer: to nearest, a tie to the even neighbour.\<close>

definition py_round :: "rat \<Rightarrow> int" where
  "py_round x =
     (let f = \<lfloor>x\<rfloor>; d = x - of_int f
      in if d < 1 / 2 then f
         else if 1 / 2 < d then f + 1
         else if even f then f else f + 1)"

text \<open>\<^verbatim>\<open>d.take(locs)\<close>: the rows at the given positions, in that order.\<close>

definition take_locs :: "('i, 'v) dataframe \<Rightarrow> nat list \<Rightarrow> ('i, 'v) dataframe" where
  "take_locs d locs = d\<lparr>rows := map (\<lambda>k. rows d ! k) locs\<rparr>"

text \<open>
  \<^verbatim>\<open>d.sample(frac=fr)\<close> (pandas 1.x, no replacement, no weights): ValueError for
  \<open>fr > 1\<close>; \<^verbatim>\<open>n = int(round(fr * len))\<close>; ValueError for negative \<open>n\<close>; then the rows
  at \<^verbatim>\<open>choice(len, n)\<close>.
\<close>

definition sample ::
  "rat \<Rightarrow> ('i, 'v) dataframe \<Rightarrow> bitgen \<Rightarrow> error + (('i, 'v) dataframe \<times> bitgen)" where
  "sample fr d g =
     (if 1 < fr then Inl ValueError
      else let n = py_round (fr * of_nat (length (rows d)))
        in if n < 0 then Inl ValueError
           else case choice (length (rows d)) (nat n) g of
                  Inl e \<Rightarrow> Inl e
                | Inr (locs, g') \<Rightarrow> Inr (take_locs d locs, g'))"

text \<open>
  \<^verbatim>\<open>d.drop(labels)\<close>: a new frame without the rows whose index label is among \<open>labels\<close>
  (every row carrying such a label goes); KeyError when a label is not in the index.
\<close>

definition drop_index :: "('i, 'v) dataframe \<Rightarrow> 'i list \<Rightarrow> error + ('i, 'v) dataframe" where
  "drop_index d labels =
     (if set labels \<subseteq> set (index d)
      then Inr (d\<lparr>rows := filter (\<lambda>r. fst r \<notin> set labels) (rows d)\<rparr>)
      else Inl KeyError)"

text \<open>\<^verbatim>\<open>a.append(b)\<close>: a new frame, the rows of \<open>a\<close> then those of \<open>b\<close>, over the union of the columns.\<close>

definition append_df :: "('i, 'v) dataframe \<Rightarrow> ('i, 'v) dataframe \<Rightarrow> ('i, 'v) dataframe" where
  "append_df a b =
     \<lparr>columns = columns a @ filter (\<lambda>c. c \<notin> set (columns a)) (columns b),
      rows = rows a @ rows b\<rparr>"

text \<open>Float division: ZeroDivisionError on a zero divisor.\<close>

definition truediv :: "rat \<Rightarrow> rat \<Rightarrow> error + rat" where
  "truediv a b = (if b = 0 then Inl ZeroDivisionError else Inr (a / b))"

section \<open>The splitter\<close>

text \<open>An exception ends the computation: the rest runs only on a normal result.\<close>

definition bind_err :: "error + 'a \<Rightarrow> ('a \<Rightarrow> error + 'b) \<Rightarrow> error + 'b" where
  "bind_err m f = (case m of Inl e \<Rightarrow> Inl e | Inr x \<Rightarrow> f x)"

text \<open>
  One iteration of \<^verbatim>\<open>for lbl in labels\<close>. The accumulator is
  \<open>(train_df, val_df, test_df)\<close>; the generator is threaded through the two samples.
\<close>

type_synonym ('i, 'v) frames = "('i, 'v) dataframe \<times> ('i, 'v) dataframe \<times> ('i, 'v) dataframe"

definition split_label ::
  "('i, 'v) dataframe \<Rightarrow> string \<Rightarrow> rat \<times> rat \<times> rat \<Rightarrow> 'v option \<Rightarrow> ('i, 'v) frames \<Rightarrow> bitgen
     \<Rightarrow> error + (('i, 'v) frames \<times> bitgen)" where
  "split_label df label_column splits lbl acc g =
     (case splits of (s0, s1, s2) \<Rightarrow>
      case acc of (train_df, val_df, test_df) \<Rightarrow>
      let lbl_df = mask_eq df label_column lbl in
      bind_err (sample s0 lbl_df g) (\<lambda>(lbl_train_df, g1).
      bind_err (drop_index lbl_df (index lbl_train_df)) (\<lambda>lbl_val_and_test_df.
      bind_err (truediv s2 (s1 + s2)) (\<lambda>fr.
      bind_err (sample fr lbl_val_and_test_df g1) (\<lambda>(lbl_test_df, g2).
      bind_err (drop_index lbl_val_and_test_df (index lbl_test_df)) (\<lambda>lbl_val_df.
      Inr ((append_df train_df lbl_train_df,
            append_df val_df lbl_val_df,
            append_df test_df lbl_test_df), g2)))))))"

fun for_labels ::
  "('i, 'v) dataframe \<Rightarrow> string \<Rightarrow> rat \<times> rat \<times> rat \<Rightarrow> 'v option list \<Rightarrow> ('i, 'v) frames \<Rightarrow> bitgen
     \<Rightarrow> error + (('i, 'v) frames \<times> bitgen)" where
  "for_labels df label_column splits [] acc g = Inr (acc, g)"
| "for_labels df label_column splits (lbl # labels) acc g =
     bind_err (split_label df label_column splits lbl acc g) (\<lambda>(acc', g').
       for_labels df label_column splits labels acc' g')"

text \<open>
  The whole function: the label column, its distinct values, the loop, and the three
  shuffles \<^verbatim>\<open>.sample(frac=1)\<close> of the return statement, evaluated left to right.
\<close>

definition split_to_train_val_test ::
  "('i, 'v) dataframe \<Rightarrow> string \<Rightarrow> rat \<times> rat \<times> rat \<Rightarrow> bitgen
     \<Rightarrow> error + (('i, 'v) frames \<times> bitgen)" where
  "split_to_train_val_test df label_column splits g =
     bind_err (getitem df label_column) (\<lambda>col.
     bind_err (for_labels df label_column splits (unique col) (DataFrame, DataFrame, DataFrame) g)
       (\<lambda>((train_df, val_df, test_df), g1).
     bind_err (sample 1 train_df g1) (\<lambda>(tr, g2).
     bind_err (sample 1 val_df g2) (\<lambda>(va, g3).
     bind_err (sample 1 test_df g3) (\<lambda>(te, g4).
     Inr ((tr, va, te), g4))))))"

section \<open>Notions used to state the properties\<close>

text \<open>The rows of a frame whose cell in column \<open>c\<close> is \<open>l\<close>, as a multiset.\<close>

definition label_rows :: "('i, 'v) dataframe \<Rightarrow> string \<Rightarrow> 'v option \<Rightarrow> ('i, 'v) row multiset" where
  "label_rows d c l = filter_mset (\<lambda>r. cell r c = l) (mset (rows d))"

text \<open>
  What one label group \<open>G\<close> becomes: train part \<open>A\<close>, validation part \<open>B\<close> and test part
  \<open>T\<close> together are exactly \<open>G\<close>; \<open>A\<close> has \<open>round(s0 * |G|)\<close> rows and \<open>T\<close> has
  \<open>round(s2 / (s1 + s2) * (|G| - |A|))\<close> rows, so \<open>B\<close> is what is left.
\<close>

definition group_split ::
  "rat \<times> rat \<times> rat \<Rightarrow> 'a multiset \<Rightarrow> 'a multiset \<Rightarrow> 'a multiset \<Rightarrow> 'a multiset \<Rightarrow> bool" where
  "group_split splits G A B T =
     (case splits of (s0, s1, s2) \<Rightarrow>
        A + B + T = G \<and>
        int (size A) = py_round (s0 * of_nat (size G)) \<and>
        int (size T) = py_round (s2 / (s1 + s2) * of_nat (size G - size A)))"

text \<open>How many rows of a frame carry the label \<open>l\<close> in column \<open>c\<close>.\<close>

definition count_label :: "('i, 'v) dataframe \<Rightarrow> string \<Rightarrow> 'v \<Rightarrow> nat" where
  "count_label d c l = length (filter (\<lambda>r. cell r c = Some l) (rows d))"

text \<open>
  Two calls one after the other, as a caller in one process makes them: the second starts from
  the generator state the first has left. The result is the pair of the two returned triples.
\<close>

definition call_twice ::
  "('i, 'v) dataframe \<Rightarrow> string \<Rightarrow> rat \<times> rat \<times> rat \<Rightarrow> bitgen
     \<Rightarrow> error + (('i, 'v) frames \<times> ('i, 'v) frames)" where
  "call_twice df label_column splits g =
     bind_err (split_to_train_val_test df label_column splits g) (\<lambda>(first, g1).
     bind_err (split_to_train_val_test df label_column splits g1) (\<lambda>(second, g2).
     Inr (first, second)))"

section \<open>Example frames\<close>

text \<open>Three items of one class; two items of one class; ten items each of two classes.\<close>

definition three_of_one_class :: "(nat, string) dataframe" where
  "three_of_one_class =
     \<lparr>columns = [''label''],
      rows = [(0, [(''label'', ''A'')]), (1, [(''label'', ''A'')]), (2, [(''label'', ''A'')])]\<rparr>"

definition two_of_one_class :: "(nat, string) dataframe" where
  "two_of_one_class =
     \<lparr>columns = [''label''], rows = [(0, [(''label'', ''A'')]), (1, [(''label'', ''A'')])]\<rparr>"

definition ten_and_ten :: "(nat, string) dataframe" where
  "ten_and_ten =
     \<lparr>columns = [''label''],
      rows = map (\<lambda>k. (k, [(''label'', if even k then ''A'' else ''B'')])) [0..<20]\<rparr>"

section \<open>Rounding, shuffling, sampling and dropping\<close>

text \<open>Rounding leaves integers alone, keeps the sign and never passes the next integer.\<close>

lemma py_round_of_int [simp]: "py_round (of_int n) = n"
  by (simp add: py_round_def)

lemma py_round_of_nat [simp]: "py_round (of_nat n) = int n"
  using py_round_of_int [of "int n"] by simp

lemma py_round_nonneg: "0 \<le> x \<Longrightarrow> 0 \<le> py_round x"
  by (auto simp: py_round_def Let_def)

lemma py_round_le:
  assumes "x \<le> of_int n"
  shows "py_round x \<le> n"
proof -
  have f: "\<lfloor>x\<rfloor> \<le> n" using assms by (simp add: floor_le_iff)
  show ?thesis
  proof (cases "x - of_int \<lfloor>x\<rfloor> < 1 / 2")
    case True
    then show ?thesis using f by (simp add: py_round_def Let_def)
  next
    case False
    then have "of_int \<lfloor>x\<rfloor> < x" by linarith
    then have "of_int \<lfloor>x\<rfloor> < (of_int n :: rat)" using assms by linarith
    then have "\<lfloor>x\<rfloor> < n" by simp
    then show ?thesis by (simp add: py_round_def Let_def)
  qed
qed

text \<open>A swap inside the list keeps its length and its elements.\<close>

lemma swap_length [simp]: "length (swap xs i j) = length xs"
  by (simp add: swap_def Let_def)

lemma swap_mset: "i < length xs \<Longrightarrow> j < length xs \<Longrightarrow> mset (swap xs i j) = mset xs"
  unfolding swap_def Let_def by (rule mset_swap)

text \<open>
  The shuffle permutes: whatever the generator draws, the result has the elements of the
  input; and it reads one draw per iteration.
\<close>

lemma shuffle_loop_mset:
  "i < length xs \<Longrightarrow> mset (fst (shuffle_loop i xs g)) = mset xs"
proof (induction i arbitrary: xs g)
  case 0
  then show ?case by simp
next
  case (Suc i)
  have j: "g 0 mod Suc (Suc i) < length xs"
    using Suc.prems by (meson less_Suc_eq_le less_le_trans mod_less_divisor not_less zero_less_Suc le_less_trans)
  have "mset (fst (shuffle_loop i (swap xs (Suc i) (g 0 mod Suc (Suc i))) (\<lambda>k. g (Suc k))))
          = mset (swap xs (Suc i) (g 0 mod Suc (Suc i)))"
    using Suc.prems by (intro Suc.IH) simp
  then show ?case
    using Suc.prems j by (simp add: random_interval_def swap_mset)
qed

lemma shuffle_loop_tape: "snd (shuffle_loop i xs g) = (\<lambda>k. g (k + i))"
  by (induction i arbitrary: xs g) (simp_all add: random_interval_def)

lemma permutation_mset: "mset (fst (permutation n g)) = mset [0..<n]"
proof (cases n)
  case 0
  then show ?thesis by (simp add: permutation_def)
next
  case (Suc m)
  then show ?thesis unfolding permutation_def by (intro shuffle_loop_mset) simp
qed

lemma permutation_tape: "snd (permutation n g) = (\<lambda>k. g (k + (n - 1)))"
  by (simp add: permutation_def shuffle_loop_tape)

lemma permutation_length: "length (fst (permutation n g)) = n"
  using permutation_mset [of n g] by (metis length_upt mset_eq_length minus_nat.diff_0)

lemma mset_nth_perm:
  assumes "mset p = mset [0..<length xs]"
  shows "mset (map (\<lambda>k. xs ! k) p) = mset xs"
proof -
  have "mset (map (\<lambda>k. xs ! k) p) = image_mset (\<lambda>k. xs ! k) (mset p)" by simp
  also have "\<dots> = mset (map (\<lambda>k. xs ! k) [0..<length xs])" using assms by simp
  also have "\<dots> = mset xs" by (simp add: map_nth)
  finally show ?thesis .
qed

lemma mset_nth_take_perm:
  assumes "mset p = mset [0..<length xs]"
  shows "mset (map (\<lambda>k. xs ! k) (take n p)) \<subseteq># mset xs"
proof -
  have "mset (map (\<lambda>k. xs ! k) (take n p)) + mset (map (\<lambda>k. xs ! k) (drop n p))
          = mset (map (\<lambda>k. xs ! k) (take n p @ drop n p))" by (simp del: append_take_drop_id)
  also have "\<dots> = mset xs" using mset_nth_perm [OF assms] by simp
  finally show ?thesis by (metis mset_subset_eq_add_left)
qed

text \<open>
  A sample that returns is a sub-collection of the frame's rows with \<open>round(fr * len)\<close>
  rows over the same columns; it returns for every fraction in \<open>[0, 1]\<close>.
\<close>

lemma choice_Inr:
  assumes "choice pop sz g = Inr (locs, g')"
  shows "sz \<le> pop \<and> locs = take sz (fst (permutation pop g)) \<and> g' = snd (permutation pop g)"
  using assms by (auto simp: choice_def split: if_splits prod.splits)

lemma sample_Inr:
  assumes "sample fr d g = Inr (d', g')"
  shows "columns d' = columns d"
    and "mset (rows d') \<subseteq># mset (rows d)"
    and "length (rows d') = nat (py_round (fr * of_nat (length (rows d))))"
    and "g' = (\<lambda>k. g (k + (length (rows d) - 1)))"
proof -
  let ?n = "nat (py_round (fr * of_nat (length (rows d))))"
  let ?p = "fst (permutation (length (rows d)) g)"
  from assms obtain locs where c: "choice (length (rows d)) ?n g = Inr (locs, g')"
    and d': "d' = take_locs d locs"
    by (auto simp: sample_def Let_def split: if_splits sum.splits)
  from choice_Inr [OF c] have n: "?n \<le> length (rows d)" and locs: "locs = take ?n ?p"
    and g': "g' = snd (permutation (length (rows d)) g)" by auto
  show "columns d' = columns d" by (simp add: d' take_locs_def)
  show "mset (rows d') \<subseteq># mset (rows d)"
    unfolding d' take_locs_def locs using mset_nth_take_perm [OF permutation_mset] by simp
  show "length (rows d') = ?n"
    using n by (simp add: d' take_locs_def locs permutation_length)
  show "g' = (\<lambda>k. g (k + (length (rows d) - 1)))" by (simp add: g' permutation_tape)
qed

lemma sample_succeeds:
  assumes "0 \<le> fr" "fr \<le> 1"
  shows "\<exists>d' g'. sample fr d g = Inr (d', g')"
proof -
  let ?m = "length (rows d)"
  have "fr * of_nat ?m \<le> 1 * of_nat ?m" using assms by (intro mult_right_mono) auto
  then have "fr * of_nat ?m \<le> of_int (int ?m)" by simp
  then have le: "py_round (fr * of_nat ?m) \<le> int ?m" by (rule py_round_le)
  have ge: "0 \<le> py_round (fr * of_nat ?m)" using assms by (intro py_round_nonneg) simp
  show ?thesis using assms le ge
    by (auto simp: sample_def choice_def Let_def split: prod.splits)
qed

text \<open>
  Dropping the sampled identifiers never raises, and on a frame with distinct identifiers it
  removes the sampled rows and nothing else.
\<close>

lemma sample_index_subset:
  assumes "sample fr d g = Inr (d', g')"
  shows "set (index d') \<subseteq> set (index d)"
  using set_mset_mono [OF sample_Inr(2) [OF assms]] by (auto simp: index_def)

lemma drop_index_Inr:
  "set labels \<subseteq> set (index d) \<Longrightarrow>
     drop_index d labels = Inr (d\<lparr>rows := filter (\<lambda>r. fst r \<notin> set labels) (rows d)\<rparr>)"
  by (simp add: drop_index_def)

lemma mset_drop_sampled:
  assumes dist: "distinct (map fst xs)" and sub: "mset ys \<subseteq># mset xs"
  shows "mset (filter (\<lambda>r. fst r \<notin> set (map fst ys)) xs) = mset xs - mset ys"
proof (rule multiset_eqI)
  fix r
  have dxs: "distinct xs" using dist by (rule distinct_map [THEN iffD1, THEN conjunct1])
  have inj: "inj_on fst (set xs)" using dist by (simp add: distinct_map)
  have ys_xs: "set ys \<subseteq> set xs" using set_mset_mono [OF sub] by simp
  have le: "count (mset ys) r \<le> count (mset xs) r" using sub by (rule mset_subset_eq_count)
  have c1: "count (mset xs) r \<le> 1"
    using dxs [unfolded distinct_count_atmost_1, rule_format, of r] by (simp split: if_splits)
  show "count (mset (filter (\<lambda>r. fst r \<notin> set (map fst ys)) xs)) r = count (mset xs - mset ys) r"
  proof (cases "r \<in> set ys")
    case True
    then have "count (mset ys) r \<noteq> 0" by (metis count_eq_zero_iff set_mset_mset)
    with le c1 have "count (mset xs) r - count (mset ys) r = 0" by arith
    moreover have "fst r \<in> set (map fst ys)" using True by force
    ultimately show ?thesis by simp
  next
    case False
    then have cy: "count (mset ys) r = 0" by (metis count_eq_zero_iff set_mset_mset)
    show ?thesis
    proof (cases "r \<in> set xs")
      case True
      have "fst r \<notin> set (map fst ys)"
      proof
        assume "fst r \<in> set (map fst ys)"
        then obtain y where y: "y \<in> set ys" "fst y = fst r" by auto
        with ys_xs True inj have "y = r" by (auto dest: inj_onD)
        with y False show False by simp
      qed
      then show ?thesis by (simp add: cy)
    next
      case False
      then show ?thesis by (simp add: cy count_eq_zero_iff)
    qed
  qed
qed

section \<open>One label group, then all of them\<close>

lemma bind_err_eq_Inr: "bind_err m f = Inr y \<longleftrightarrow> (\<exists>x. m = Inr x \<and> f x = Inr y)"
  by (cases m) (auto simp: bind_err_def)

lemma cell_eq_imp_eq: "cell_eq a b \<Longrightarrow> a = b"
  by (auto simp: cell_eq_def split: option.splits)

text \<open>
  An iteration that returns appends to the three accumulators a train, a validation and a
  test part that split the label's rows as \<open>group_split\<close> says.
\<close>

lemma split_label_Inr:
  assumes it: "split_label df c (s0, s1, s2) lbl (tr, va, te) g = Inr ((tr', va', te'), g')"
    and dist: "distinct (index df)"
  shows "\<exists>a b t. rows tr' = rows tr @ a \<and> rows va' = rows va @ b \<and> rows te' = rows te @ t \<and>
           group_split (s0, s1, s2) (mset (rows (mask_eq df c lbl))) (mset a) (mset b) (mset t)"
proof -
  let ?G = "mask_eq df c lbl"
  from it obtain ltr g1 vt lte g2 lva where s1: "sample s0 ?G g = Inr (ltr, g1)"
    and d1: "drop_index ?G (index ltr) = Inr vt"
    and nz: "s1 + s2 \<noteq> 0"
    and s2: "sample (s2 / (s1 + s2)) vt g1 = Inr (lte, g2)"
    and d2: "drop_index vt (index lte) = Inr lva"
    and res: "tr' = append_df tr ltr" "va' = append_df va lva" "te' = append_df te lte"
    by (auto simp: split_label_def Let_def bind_err_eq_Inr truediv_def split: if_splits)
  have dG: "distinct (map fst (rows ?G))"
    using dist by (simp add: index_def mask_eq_def distinct_map_filter)
  have vt: "rows vt = filter (\<lambda>r. fst r \<notin> set (map fst (rows ltr))) (rows ?G)"
    using d1 by (auto simp: drop_index_def index_def split: if_splits)
  have m1: "mset (rows vt) = mset (rows ?G) - mset (rows ltr)"
    unfolding vt using dG sample_Inr(2) [OF s1] by (rule mset_drop_sampled)
  have dvt: "distinct (map fst (rows vt))"
    unfolding vt using dG by (rule distinct_map_filter)
  have lva: "rows lva = filter (\<lambda>r. fst r \<notin> set (map fst (rows lte))) (rows vt)"
    using d2 by (auto simp: drop_index_def index_def split: if_splits)
  have m2: "mset (rows lva) = mset (rows vt) - mset (rows lte)"
    unfolding lva using dvt sample_Inr(2) [OF s2] by (rule mset_drop_sampled)
  have sum: "mset (rows ltr) + mset (rows lva) + mset (rows lte) = mset (rows ?G)"
    using m1 m2 sample_Inr(2) [OF s1] sample_Inr(2) [OF s2]
    by (metis add.commute add.assoc subset_mset.add_diff_inverse subset_mset.diff_add)
  have n1: "int (length (rows ltr)) = py_round (s0 * of_nat (length (rows ?G)))"
    using s1 sample_Inr(3) [OF s1]
    by (auto simp: sample_def Let_def split: if_splits)
  have lvt: "length (rows vt) = length (rows ?G) - length (rows ltr)"
    using arg_cong [OF m1, of size] sample_Inr(2) [OF s1] by (simp add: size_Diff_submset)
  have n2: "int (length (rows lte)) = py_round (s2 / (s1 + s2) * of_nat (length (rows ?G) - length (rows ltr)))"
    using s2 sample_Inr(3) [OF s2] lvt
    by (auto simp: sample_def Let_def split: if_splits)
  show ?thesis
    using sum n1 n2 by (simp add: res append_df_def group_split_def)
qed

lemma mask_eq_label: "r \<in> set (rows (mask_eq df c lbl)) \<Longrightarrow> cell r c = lbl"
  by (auto simp: mask_eq_def dest: cell_eq_imp_eq)

lemma filter_group_part:
  assumes "A \<subseteq># mset (rows (mask_eq df c lbl))"
  shows "filter_mset (\<lambda>r. cell r c = l) A = (if l = lbl then A else {#})"
proof -
  have "\<forall>r\<in>#A. cell r c = lbl"
    using assms mask_eq_label by (metis mset_subset_eqD set_mset_mset)
  then show ?thesis by (auto simp: filter_mset_eq_conv)
qed

lemma label_rows_append:
  "rows d' = rows d @ a \<Longrightarrow> label_rows d' c l = label_rows d c l + filter_mset (\<lambda>r. cell r c = l) (mset a)"
  by (simp add: label_rows_def)

lemma group_split_parts:
  assumes "group_split splits G A B T"
  shows "A \<subseteq># G" "B \<subseteq># G" "T \<subseteq># G"
proof -
  from assms have "A + B + T = G" by (auto simp: group_split_def split: prod.splits)
  then show "A \<subseteq># G" "B \<subseteq># G" "T \<subseteq># G"
    by (metis mset_subset_eq_add_left mset_subset_eq_add_right subset_mset.order_trans add.assoc union_commute)+
qed

text \<open>
  The loop over distinct labels: for each label \<open>l\<close>, the rows of \<open>l\<close> that the loop adds to
  the accumulators split the group of \<open>l\<close> if \<open>l\<close> was visited, and are none otherwise.
\<close>

lemma for_labels_Inr:
  assumes "for_labels df c splits ls (tr, va, te) g = Inr ((tr', va', te'), g')"
    and "distinct ls" and "distinct (index df)"
  shows "\<exists>A B T. label_rows tr' c l = label_rows tr c l + A \<and>
           label_rows va' c l = label_rows va c l + B \<and>
           label_rows te' c l = label_rows te c l + T \<and>
           (if l \<in> set ls then group_split splits (mset (rows (mask_eq df c l))) A B T
            else A = {#} \<and> B = {#} \<and> T = {#})"
  using assms
proof (induction ls arbitrary: tr va te g)
  case Nil
  then show ?case by simp
next
  case (Cons lbl ls)
  obtain s0 s1 s2 where splits: "splits = (s0, s1, s2)" by (cases splits) auto
  from Cons.prems(1) obtain tr1 va1 te1 g1
    where it: "split_label df c (s0, s1, s2) lbl (tr, va, te) g = Inr ((tr1, va1, te1), g1)"
      and rest: "for_labels df c splits ls (tr1, va1, te1) g1 = Inr ((tr', va', te'), g')"
    by (auto simp: bind_err_eq_Inr splits)
  from split_label_Inr [OF it Cons.prems(3)] obtain a b t
    where app: "rows tr1 = rows tr @ a" "rows va1 = rows va @ b" "rows te1 = rows te @ t"
      and gs: "group_split splits (mset (rows (mask_eq df c lbl))) (mset a) (mset b) (mset t)"
    unfolding splits by blast
  note parts = group_split_parts [OF gs]
  have step: "label_rows tr1 c l = label_rows tr c l + (if l = lbl then mset a else {#})"
    "label_rows va1 c l = label_rows va c l + (if l = lbl then mset b else {#})"
    "label_rows te1 c l = label_rows te c l + (if l = lbl then mset t else {#})"
    using app parts by (simp_all add: label_rows_append filter_group_part)
  from Cons.IH [OF rest] Cons.prems(2,3) obtain A B T
    where ih: "label_rows tr' c l = label_rows tr1 c l + A"
      "label_rows va' c l = label_rows va1 c l + B"
      "label_rows te' c l = label_rows te1 c l + T"
      "if l \<in> set ls then group_split splits (mset (rows (mask_eq df c l))) A B T
       else A = {#} \<and> B = {#} \<and> T = {#}"
    by auto
  show ?case
  proof (cases "l = lbl")
    case True
    then have "l \<notin> set ls" using Cons.prems(2) by simp
    with ih True step gs show ?thesis by simp
  next
    case False
    with ih step show ?thesis by simp
  qed
qed

lemma unique_set [simp]: "set (unique xs) = set xs"
  by (induction xs rule: unique.induct) auto

lemma unique_distinct [simp]: "distinct (unique xs)"
  by (induction xs rule: unique.induct) auto

lemma label_rows_DataFrame [simp]: "label_rows DataFrame c l = {#}"
  by (simp add: label_rows_def DataFrame_def)

lemma label_rows_cong: "mset (rows d') = mset (rows d) \<Longrightarrow> label_rows d' c l = label_rows d c l"
  by (simp add: label_rows_def)

lemma py_round_zero [simp]: "py_round 0 = 0"
  by (simp add: py_round_def)

lemma group_split_empty: "group_split splits {#} {#} {#} {#}"
  by (simp add: group_split_def split: prod.splits)

lemma sample_one_Inr:
  assumes "sample 1 d g = Inr (d', g')"
  shows "mset (rows d') = mset (rows d)" and "columns d' = columns d"
proof -
  have "length (rows d') = length (rows d)" using sample_Inr(3) [OF assms] by simp
  then show "mset (rows d') = mset (rows d)"
    using sample_Inr(2) [OF assms]
    by (metis size_mset subset_mset.antisym_conv2 mset_subset_size less_irrefl)
  show "columns d' = columns d" by (rule sample_Inr(1) [OF assms])
qed

lemma split_Inr:
  assumes "split_to_train_val_test df c splits g = Inr ((tr, va, te), g')"
  shows "\<exists>tr0 va0 te0 g1. c \<in> set (columns df) \<and>
     for_labels df c splits (unique (map (\<lambda>r. cell r c) (rows df))) (DataFrame, DataFrame, DataFrame) g
        = Inr ((tr0, va0, te0), g1) \<and>
     mset (rows tr) = mset (rows tr0) \<and> mset (rows va) = mset (rows va0) \<and>
     mset (rows te) = mset (rows te0) \<and>
     columns tr = columns tr0 \<and> columns va = columns va0 \<and> columns te = columns te0"
proof -
  from assms have c: "c \<in> set (columns df)"
    by (auto simp: split_to_train_val_test_def bind_err_eq_Inr getitem_def split: if_splits)
  from assms c obtain tr0 va0 te0 g1 g2 g3 where
    loop: "for_labels df c splits (unique (map (\<lambda>r. cell r c) (rows df))) (DataFrame, DataFrame, DataFrame) g
        = Inr ((tr0, va0, te0), g1)"
    and s: "sample 1 tr0 g1 = Inr (tr, g2)" "sample 1 va0 g2 = Inr (va, g3)" "sample 1 te0 g3 = Inr (te, g')"
    by (auto simp: split_to_train_val_test_def bind_err_eq_Inr getitem_def)
  have "mset (rows tr) = mset (rows tr0)" "columns tr = columns tr0"
    using sample_one_Inr [OF s(1)] by simp_all
  moreover have "mset (rows va) = mset (rows va0)" "columns va = columns va0"
    using sample_one_Inr [OF s(2)] by simp_all
  moreover have "mset (rows te) = mset (rows te0)" "columns te = columns te0"
    using sample_one_Inr [OF s(3)] by simp_all
  ultimately show ?thesis using c loop by blast
qed

text \<open>The same for the whole call: the final shuffles only reorder.\<close>

lemma split_groups:
  assumes ret: "split_to_train_val_test df c splits g = Inr ((tr, va, te), g')"
    and dist: "distinct (index df)"
  shows "group_split splits (mset (rows (mask_eq df c l)))
           (label_rows tr c l) (label_rows va c l) (label_rows te c l)"
proof -
  let ?col = "map (\<lambda>r. cell r c) (rows df)"
  from split_Inr [OF ret] obtain tr0 va0 te0 g1 where
    loop: "for_labels df c splits (unique ?col) (DataFrame, DataFrame, DataFrame) g = Inr ((tr0, va0, te0), g1)"
    and m: "mset (rows tr) = mset (rows tr0)" "mset (rows va) = mset (rows va0)"
      "mset (rows te) = mset (rows te0)"
    by blast
  from for_labels_Inr [OF loop unique_distinct dist, of l] obtain A B T where
    raw: "label_rows tr0 c l = label_rows DataFrame c l + A"
      "label_rows va0 c l = label_rows DataFrame c l + B"
      "label_rows te0 c l = label_rows DataFrame c l + T"
    and gs0: "if l \<in> set (unique ?col) then group_split splits (mset (rows (mask_eq df c l))) A B T
       else A = {#} \<and> B = {#} \<and> T = {#}"
    by blast
  have ABT: "label_rows tr0 c l = A" "label_rows va0 c l = B" "label_rows te0 c l = T"
    using raw by simp_all
  have gs: "if l \<in> set ?col then group_split splits (mset (rows (mask_eq df c l))) A B T
       else A = {#} \<and> B = {#} \<and> T = {#}"
    using gs0 by simp
  have eq: "label_rows tr c l = A" "label_rows va c l = B" "label_rows te c l = T"
    using ABT label_rows_cong [OF m(1), of c l] label_rows_cong [OF m(2), of c l]
      label_rows_cong [OF m(3), of c l] by simp_all
  show ?thesis
  proof (cases "l \<in> set ?col")
    case True
    with gs eq show ?thesis by simp
  next
    case False
    have "rows (mask_eq df c l) = []"
      using False by (auto simp: mask_eq_def filter_empty_conv dest: cell_eq_imp_eq)
    with False gs eq show ?thesis by (simp add: group_split_empty)
  qed
qed

section \<open>When the call returns\<close>

text \<open>
  With \<open>0 \<le> train \<le> 1\<close>, non-negative \<open>val\<close> and \<open>test\<close> and \<open>val + test \<noteq> 0\<close> no operation
  raises; the sum of the ratios plays no part.
\<close>

lemma split_label_succeeds:
  assumes "0 \<le> s0" "s0 \<le> 1" "0 \<le> s1" "0 \<le> s2" "s1 + s2 \<noteq> 0"
  shows "\<exists>acc' g'. split_label df c (s0, s1, s2) lbl acc g = Inr (acc', g')"
proof -
  let ?G = "mask_eq df c lbl"
  obtain tr va te where acc: "acc = (tr, va, te)" by (cases acc) auto
  obtain ltr g1 where s1: "sample s0 ?G g = Inr (ltr, g1)"
    using sample_succeeds [OF assms(1,2)] by blast
  have d1: "drop_index ?G (index ltr) = Inr (?G\<lparr>rows := filter (\<lambda>r. fst r \<notin> set (index ltr)) (rows ?G)\<rparr>)"
    using sample_index_subset [OF s1] by (rule drop_index_Inr)
  let ?vt = "?G\<lparr>rows := filter (\<lambda>r. fst r \<notin> set (index ltr)) (rows ?G)\<rparr>"
  have fr: "0 \<le> s2 / (s1 + s2)" "s2 / (s1 + s2) \<le> 1"
    using assms(3-5) by (simp_all add: divide_le_eq_1)
  obtain lte g2 where s2: "sample (s2 / (s1 + s2)) ?vt g1 = Inr (lte, g2)"
    using sample_succeeds [OF fr] by blast
  have d2: "drop_index ?vt (index lte) = Inr (?vt\<lparr>rows := filter (\<lambda>r. fst r \<notin> set (index lte)) (rows ?vt)\<rparr>)"
    using sample_index_subset [OF s2] by (rule drop_index_Inr)
  show ?thesis
    using assms(5) by (simp add: split_label_def acc Let_def bind_err_def truediv_def s1 d1 s2 d2)
qed

lemma for_labels_succeeds:
  assumes "0 \<le> s0" "s0 \<le> 1" "0 \<le> s1" "0 \<le> s2" "s1 + s2 \<noteq> 0"
  shows "\<exists>acc' g'. for_labels df c (s0, s1, s2) ls acc g = Inr (acc', g')"
proof (induction ls arbitrary: acc g)
  case Nil
  show ?case by (simp del: split_paired_Ex)
next
  case (Cons lbl ls)
  obtain acc1 g1 where it: "split_label df c (s0, s1, s2) lbl acc g = Inr (acc1, g1)"
    using split_label_succeeds [OF assms] by blast
  from Cons.IH [of acc1 g1] show ?case by (simp add: it bind_err_def)
qed

lemma split_succeeds:
  assumes "c \<in> set (columns df)" "0 \<le> s0" "s0 \<le> 1" "0 \<le> s1" "0 \<le> s2" "s1 + s2 \<noteq> 0"
  shows "\<exists>tr va te g'. split_to_train_val_test df c (s0, s1, s2) g = Inr ((tr, va, te), g')"
proof -
  let ?col = "map (\<lambda>r. cell r c) (rows df)"
  obtain acc g1 where "for_labels df c (s0, s1, s2) (unique ?col) (DataFrame, DataFrame, DataFrame) g = Inr (acc, g1)"
    using for_labels_succeeds [OF assms(2-6)] by blast
  then obtain tr0 va0 te0 where loop:
    "for_labels df c (s0, s1, s2) (unique ?col) (DataFrame, DataFrame, DataFrame) g = Inr ((tr0, va0, te0), g1)"
    by (cases acc) auto
  obtain tr g2 where a: "sample 1 tr0 g1 = Inr (tr, g2)" using sample_succeeds [of 1 tr0 g1] by auto
  obtain va g3 where b: "sample 1 va0 g2 = Inr (va, g3)" using sample_succeeds [of 1 va0 g2] by auto
  obtain te g4 where d: "sample 1 te0 g3 = Inr (te, g4)" using sample_succeeds [of 1 te0 g3] by auto
  show ?thesis
    using assms(1) by (simp add: split_to_train_val_test_def getitem_def bind_err_def loop a b d)
qed

text \<open>
  With distinct identifiers and a label on every row, the three frames hold the rows of the
  input, each once.
\<close>

lemma split_rows:
  assumes ret: "split_to_train_val_test df c splits g = Inr ((tr, va, te), g')"
    and dist: "distinct (index df)"
    and lab: "\<forall>r\<in>set (rows df). cell r c \<noteq> None"
  shows "mset (rows tr) + mset (rows va) + mset (rows te) = mset (rows df)"
proof (rule multiset_eqI)
  fix r :: "('a, 'b) row"
  let ?l = "cell r c"
  have gs: "group_split splits (mset (rows (mask_eq df c ?l)))
           (label_rows tr c ?l) (label_rows va c ?l) (label_rows te c ?l)"
    using ret dist by (rule split_groups)
  then have "label_rows tr c ?l + label_rows va c ?l + label_rows te c ?l = mset (rows (mask_eq df c ?l))"
    by (auto simp: group_split_def split: prod.splits)
  then have "count (label_rows tr c ?l + label_rows va c ?l + label_rows te c ?l) r
      = count (mset (rows (mask_eq df c ?l))) r" by simp
  moreover have "count (mset (rows (mask_eq df c ?l))) r = count (mset (rows df)) r"
  proof (cases ?l)
    case None
    then have "r \<notin> set (rows df)" using lab by auto
    then show ?thesis by (simp add: mask_eq_def count_eq_zero_iff)
  next
    case (Some v)
    then show ?thesis by (simp add: mask_eq_def cell_eq_def)
  qed
  ultimately show "count (mset (rows tr) + mset (rows va) + mset (rows te)) r = count (mset (rows df)) r"
    by (simp add: label_rows_def)
qed

section \<open>No rows, zero divisor, rows kept as they are\<close>

lemma sample_one_empty: "sample 1 (DataFrame :: ('i, 'v) dataframe) g = Inr (DataFrame, g)"
  by (simp add: sample_def choice_def permutation_def take_locs_def DataFrame_def)

lemma split_no_rows:
  assumes "rows df = []"
  shows "split_to_train_val_test df c splits g =
           (if c \<in> set (columns df) then Inr ((DataFrame, DataFrame, DataFrame), g) else Inl KeyError)"
  using assms
  by (simp add: split_to_train_val_test_def getitem_def bind_err_def sample_one_empty)

lemma split_label_zero_divisor:
  "split_label df c (1, 0, 0) lbl acc g = Inl ZeroDivisionError"
proof -
  let ?G = "mask_eq df c lbl"
  obtain tr va te where acc: "acc = (tr, va, te)" by (cases acc) auto
  obtain ltr g1 where s1: "sample 1 ?G g = Inr (ltr, g1)"
    using sample_succeeds [of 1 ?G g] by auto
  have d1: "drop_index ?G (index ltr) = Inr (?G\<lparr>rows := filter (\<lambda>r. fst r \<notin> set (index ltr)) (rows ?G)\<rparr>)"
    using sample_index_subset [OF s1] by (rule drop_index_Inr)
  show ?thesis
    by (simp add: split_label_def acc Let_def bind_err_def truediv_def s1 d1)
qed

lemma unique_Nil_iff [simp]: "unique xs = [] \<longleftrightarrow> xs = []"
  by (cases xs) auto

lemma split_zero_divisor:
  assumes "rows df \<noteq> []" "c \<in> set (columns df)"
  shows "split_to_train_val_test df c (1, 0, 0) g = Inl ZeroDivisionError"
proof -
  let ?col = "map (\<lambda>r. cell r c) (rows df)"
  from assms(1) obtain lbl ls where u: "unique ?col = lbl # ls"
    by (cases "unique ?col") auto
  show ?thesis
    using assms(2) by (simp add: split_to_train_val_test_def getitem_def bind_err_def u split_label_zero_divisor)
qed

lemma sample_rows_subset:
  assumes "sample fr d g = Inr (d', g')"
  shows "set (rows d') \<subseteq> set (rows d)"
  using set_mset_mono [OF sample_Inr(2) [OF assms]] by simp

lemma drop_index_rows_subset:
  assumes "drop_index d labels = Inr d'"
  shows "set (rows d') \<subseteq> set (rows d)" and "columns d' = columns d"
  using assms by (auto simp: drop_index_def split: if_splits)

lemma split_label_subset:
  assumes it: "split_label df c splits lbl (tr, va, te) g = Inr ((tr', va', te'), g')"
  shows "set (rows tr') \<subseteq> set (rows tr) \<union> set (rows df)"
    and "set (rows va') \<subseteq> set (rows va) \<union> set (rows df)"
    and "set (rows te') \<subseteq> set (rows te) \<union> set (rows df)"
proof -
  let ?G = "mask_eq df c lbl"
  obtain s0 s1 s2 where splits: "splits = (s0, s1, s2)" by (cases splits) auto
  from it obtain ltr g1 vt lte g2 lva where s1: "sample s0 ?G g = Inr (ltr, g1)"
    and d1: "drop_index ?G (index ltr) = Inr vt"
    and s2: "sample (s2 / (s1 + s2)) vt g1 = Inr (lte, g2)"
    and d2: "drop_index vt (index lte) = Inr lva"
    and res: "tr' = append_df tr ltr" "va' = append_df va lva" "te' = append_df te lte"
    unfolding splits
    by (auto simp: split_label_def Let_def bind_err_eq_Inr truediv_def split: if_splits)
  have G: "set (rows ?G) \<subseteq> set (rows df)" by (auto simp: mask_eq_def)
  have a: "set (rows ltr) \<subseteq> set (rows df)" using sample_rows_subset [OF s1] G by blast
  have vt: "set (rows vt) \<subseteq> set (rows df)" using drop_index_rows_subset(1) [OF d1] G by blast
  have t: "set (rows lte) \<subseteq> set (rows df)" using sample_rows_subset [OF s2] vt by blast
  have b: "set (rows lva) \<subseteq> set (rows df)" using drop_index_rows_subset(1) [OF d2] vt by blast
  show "set (rows tr') \<subseteq> set (rows tr) \<union> set (rows df)" using a by (auto simp: res append_df_def)
  show "set (rows va') \<subseteq> set (rows va) \<union> set (rows df)" using b by (auto simp: res append_df_def)
  show "set (rows te') \<subseteq> set (rows te) \<union> set (rows df)" using t by (auto simp: res append_df_def)
qed

lemma for_labels_subset:
  assumes "for_labels df c splits ls (tr, va, te) g = Inr ((tr', va', te'), g')"
  shows "set (rows tr') \<subseteq> set (rows tr) \<union> set (rows df) \<and>
         set (rows va') \<subseteq> set (rows va) \<union> set (rows df) \<and>
         set (rows te') \<subseteq> set (rows te) \<union> set (rows df)"
  using assms
proof (induction ls arbitrary: tr va te g)
  case Nil
  then show ?case by simp
next
  case (Cons lbl ls)
  from Cons.prems obtain tr1 va1 te1 g1
    where it: "split_label df c splits lbl (tr, va, te) g = Inr ((tr1, va1, te1), g1)"
      and rest: "for_labels df c splits ls (tr1, va1, te1) g1 = Inr ((tr', va', te'), g')"
    by (auto simp: bind_err_eq_Inr)
  from split_label_subset [OF it] Cons.IH [OF rest] show ?case by blast
qed

lemma split_rows_subset:
  assumes "split_to_train_val_test df c splits g = Inr ((tr, va, te), g')"
  shows "set (rows tr) \<subseteq> set (rows df)" "set (rows va) \<subseteq> set (rows df)" "set (rows te) \<subseteq> set (rows df)"
proof -
  from split_Inr [OF assms] obtain tr0 va0 te0 g1 where
    loop: "for_labels df c splits (unique (map (\<lambda>r. cell r c) (rows df))) (DataFrame, DataFrame, DataFrame) g
       = Inr ((tr0, va0, te0), g1)"
    and m: "mset (rows tr) = mset (rows tr0)" "mset (rows va) = mset (rows va0)"
      "mset (rows te) = mset (rows te0)"
    by blast
  have s: "set (rows tr) = set (rows tr0)" "set (rows va) = set (rows va0)" "set (rows te) = set (rows te0)"
    using m by (auto dest: mset_eq_setD)
  from for_labels_subset [OF loop] show "set (rows tr) \<subseteq> set (rows df)"
    "set (rows va) \<subseteq> set (rows df)" "set (rows te) \<subseteq> set (rows df)"
    unfolding s by (simp_all add: DataFrame_def)
qed

section \<open>Empty input and the all-train ratio\<close>

text \<open>
  C10. For a frame that has the label column but no rows, the call returns normally with
  three empty frames, whatever the ratios: the loop runs over no label, nothing is validated,
  and no draw is consumed.
\<close>

theorem split_zero_rows_returns_empty:
  assumes "rows df = []" and "label_column \<in> set (columns df)"
  shows "split_to_train_val_test df label_column splits g
           = Inr ((DataFrame, DataFrame, DataFrame), g)"
  using assms by (simp add: split_no_rows)

theorem split_zero_rows_returns_empty_witness:
  "rows \<lparr>columns = [''class_id''], rows = [] :: (nat, string) row list\<rparr> = [] \<and>
   ''class_id'' \<in> set (columns \<lparr>columns = [''class_id''], rows = [] :: (nat, string) row list\<rparr>) \<and>
   split_to_train_val_test \<lparr>columns = [''class_id''], rows = [] :: (nat, string) row list\<rparr>
       ''class_id'' (3, - 2, 5) (\<lambda>k. k)
     = Inr ((DataFrame, DataFrame, DataFrame), \<lambda>k. k)"
  using split_zero_rows_returns_empty
    [of "\<lparr>columns = [''class_id''], rows = [] :: (nat, string) row list\<rparr>" "''class_id''"
        "(3, - 2, 5)" "\<lambda>k. k"]
  by simp

text \<open>
  C5 as stated (a frame without rows makes the call fail) does not hold: the call returns.
\<close>

theorem empty_dataset_counterexample:
  "split_to_train_val_test \<lparr>columns = [''label''], rows = [] :: (nat, string) row list\<rparr>
       ''label'' (7 / 10, 2 / 10, 1 / 10) (\<lambda>k. 0)
     = Inr ((DataFrame, DataFrame, DataFrame), \<lambda>k. 0)"
  by (simp add: split_no_rows)

text \<open>
  C5, amended. A frame without rows never makes the call fail for being empty: with the label
  column present the result is three empty frames, and without it the column lookup raises
  KeyError.
\<close>

theorem split_empty_dataset:
  assumes "rows df = []"
  shows "split_to_train_val_test df label_column splits g =
           (if label_column \<in> set (columns df)
            then Inr ((DataFrame, DataFrame, DataFrame), g) else Inl KeyError)"
  using assms by (rule split_no_rows)

theorem split_empty_dataset_witness:
  "rows \<lparr>columns = [''name''], rows = [] :: (nat, string) row list\<rparr> = [] \<and>
   split_to_train_val_test \<lparr>columns = [''name''], rows = [] :: (nat, string) row list\<rparr>
       ''class_id'' (7 / 10, 2 / 10, 1 / 10) (\<lambda>k. k)
     = Inl KeyError"
  using split_empty_dataset
    [of "\<lparr>columns = [''name''], rows = [] :: (nat, string) row list\<rparr>" "''class_id''"
        "(7 / 10, 2 / 10, 1 / 10)" "\<lambda>k. k"]
  by simp

text \<open>
  C9. On a frame with at least one row and the label column, the ratios \<open>(1.0, 0.0, 0.0)\<close>
  reach \<^verbatim>\<open>splits[2]/(splits[1] + splits[2])\<close> with a zero divisor in the first iteration:
  the call raises ZeroDivisionError and returns nothing.
\<close>

theorem split_all_train_raises:
  assumes "rows df \<noteq> []" and "label_column \<in> set (columns df)"
  shows "split_to_train_val_test df label_column (1, 0, 0) g = Inl ZeroDivisionError"
  using assms by (rule split_zero_divisor)

theorem split_all_train_raises_witness:
  "rows \<lparr>columns = [''class_id''], rows = [(0 :: nat, [(''class_id'', ''13'')])]\<rparr> \<noteq> [] \<and>
   ''class_id'' \<in> set (columns \<lparr>columns = [''class_id''], rows = [(0 :: nat, [(''class_id'', ''13'')])]\<rparr>) \<and>
   split_to_train_val_test \<lparr>columns = [''class_id''], rows = [(0 :: nat, [(''class_id'', ''13'')])]\<rparr>
       ''class_id'' (1, 0, 0) (\<lambda>k. k)
     = Inl ZeroDivisionError"
  using split_all_train_raises
    [of "\<lparr>columns = [''class_id''], rows = [(0 :: nat, [(''class_id'', ''13'')])]\<rparr>" "''class_id''" "\<lambda>k. k"]
  by simp

section \<open>The partition by identifier\<close>

lemma mask_eq_Some: "mset (rows (mask_eq df c (Some l))) = label_rows df c (Some l)"
proof -
  have "filter (\<lambda>r. cell_eq (cell r c) (Some l)) (rows df) = filter (\<lambda>r. cell r c = Some l) (rows df)"
    by (rule filter_cong) (auto simp: cell_eq_def split: option.splits)
  then show ?thesis by (simp add: mask_eq_def label_rows_def)
qed

lemma split_index:
  assumes ret: "split_to_train_val_test df c splits g = Inr ((tr, va, te), g')"
    and dist: "distinct (index df)"
    and lab: "\<forall>r\<in>set (rows df). cell r c \<noteq> None"
  shows "mset (index tr @ index va @ index te) = mset (index df)"
proof -
  have "mset (rows tr) + mset (rows va) + mset (rows te) = mset (rows df)"
    using ret dist lab by (rule split_rows)
  then have "image_mset fst (mset (rows tr) + mset (rows va) + mset (rows te)) = image_mset fst (mset (rows df))"
    by simp
  then show ?thesis by (simp add: index_def ac_simps)
qed

text \<open>
  C1, amended. The frame has the label column, every row carries a label, and the index labels
  (the identifiers) are distinct. For ratios that are non-negative, sum to 1, with a positive
  train ratio and with \<open>val + test > 0\<close>, the call returns three frames whose identifiers
  together are exactly the input's identifiers, no identifier occurs twice in or across the
  three, and the three are pairwise disjoint.
\<close>

theorem split_partition_by_identifier:
  assumes lc: "label_column \<in> set (columns df)"
    and lab: "\<forall>r\<in>set (rows df). cell r label_column \<noteq> None"
    and dist: "distinct (index df)"
    and ratios: "0 < s0" "0 \<le> s1" "0 \<le> s2" "s0 + s1 + s2 = 1"
    and rest: "0 < s1 + s2"
  shows "\<exists>tr va te g'.
           split_to_train_val_test df label_column (s0, s1, s2) g = Inr ((tr, va, te), g') \<and>
           set (index tr) \<union> set (index va) \<union> set (index te) = set (index df) \<and>
           distinct (index tr @ index va @ index te) \<and>
           set (index tr) \<inter> set (index va) = {} \<and>
           set (index tr) \<inter> set (index te) = {} \<and>
           set (index va) \<inter> set (index te) = {}"
proof -
  have "s0 \<le> 1" using ratios by linarith
  then obtain tr va te g' where
    ret: "split_to_train_val_test df label_column (s0, s1, s2) g = Inr ((tr, va, te), g')"
    using split_succeeds [OF lc, of s0 s1 s2 g] ratios rest by auto
  have m: "mset (index tr @ index va @ index te) = mset (index df)"
    using ret dist lab by (rule split_index)
  have d: "distinct (index tr @ index va @ index te)"
    using m dist by (metis mset_eq_imp_distinct_iff)
  have s: "set (index tr @ index va @ index te) = set (index df)"
    using m by (rule mset_eq_setD)
  have "set (index tr) \<union> set (index va) \<union> set (index te) = set (index df)"
    using s by auto
  moreover have "set (index tr) \<inter> set (index va) = {}" "set (index tr) \<inter> set (index te) = {}"
    "set (index va) \<inter> set (index te) = {}"
    using d by auto
  ultimately show ?thesis using ret d by blast
qed

theorem split_partition_by_identifier_witness:
  "''label'' \<in> set (columns \<lparr>columns = [''file'', ''label''],
       rows = [(10 :: nat, [(''file'', ''a.jpg''), (''label'', ''A'')]),
               (11, [(''file'', ''b.jpg''), (''label'', ''B'')]),
               (12, [(''file'', ''c.jpg''), (''label'', ''A'')])]\<rparr>) \<and>
   (\<exists>tr va te g'.
      split_to_train_val_test \<lparr>columns = [''file'', ''label''],
       rows = [(10 :: nat, [(''file'', ''a.jpg''), (''label'', ''A'')]),
               (11, [(''file'', ''b.jpg''), (''label'', ''B'')]),
               (12, [(''file'', ''c.jpg''), (''label'', ''A'')])]\<rparr> ''label'' (7 / 10, 2 / 10, 1 / 10) (\<lambda>k. k)
        = Inr ((tr, va, te), g') \<and>
      set (index tr) \<union> set (index va) \<union> set (index te) = {10, 11, 12} \<and>
      distinct (index tr @ index va @ index te) \<and>
      set (index tr) \<inter> set (index va) = {} \<and>
      set (index tr) \<inter> set (index te) = {} \<and>
      set (index va) \<inter> set (index te) = {})"
  using split_partition_by_identifier
    [of "''label''" "\<lparr>columns = [''file'', ''label''],
       rows = [(10 :: nat, [(''file'', ''a.jpg''), (''label'', ''A'')]),
               (11, [(''file'', ''b.jpg''), (''label'', ''B'')]),
               (12, [(''file'', ''c.jpg''), (''label'', ''A'')])]\<rparr>" "7 / 10" "2 / 10" "1 / 10" "\<lambda>k. k"]
  by (simp add: cell_def index_def insert_commute)

text \<open>
  C1 as stated covers every valid ratio triple, and \<open>(1, 0, 0)\<close> is one: there the call
  returns no collections at all.
\<close>

theorem all_train_ratio_counterexample:
  "split_to_train_val_test \<lparr>columns = [''label''],
       rows = [(0 :: nat, [(''label'', ''A'')]), (1, [(''label'', ''B'')])]\<rparr> ''label'' (1, 0, 0) (\<lambda>k. 0)
     = Inl ZeroDivisionError"
  by (simp add: split_zero_divisor)

section \<open>What each label group becomes\<close>






section \<open>Items are carried over unchanged\<close>



section \<open>Class representation and the worked example\<close>

lemma count_label_size: "count_label d c l = size (label_rows d c (Some l))"
proof -
  have "size (label_rows d c (Some l)) = size (mset (filter (\<lambda>r. cell r c = Some l) (rows d)))"
    by (simp add: label_rows_def)
  also have "\<dots> = length (filter (\<lambda>r. cell r c = Some l) (rows d))" by (rule size_mset)
  finally show ?thesis by (simp only: count_label_def)
qed

lemma split_label_counts:
  assumes ret: "split_to_train_val_test df c (s0, s1, s2) g = Inr ((tr, va, te), g')"
    and dist: "distinct (index df)"
  shows "int (count_label tr c l) = py_round (s0 * of_nat (count_label df c l))"
    and "int (count_label te c l)
           = py_round (s2 / (s1 + s2) * of_nat (count_label df c l - count_label tr c l))"
    and "count_label tr c l + count_label va c l + count_label te c l = count_label df c l"
proof -
  have gs: "group_split (s0, s1, s2) (label_rows df c (Some l)) (label_rows tr c (Some l))
      (label_rows va c (Some l)) (label_rows te c (Some l))"
    using split_groups [OF ret dist, of "Some l"] by (simp add: mask_eq_Some)
  then have sum: "label_rows tr c (Some l) + label_rows va c (Some l) + label_rows te c (Some l)
      = label_rows df c (Some l)"
    by (simp add: group_split_def)
  show "int (count_label tr c l) = py_round (s0 * of_nat (count_label df c l))"
    using gs by (simp add: group_split_def count_label_size)
  show "int (count_label te c l)
           = py_round (s2 / (s1 + s2) * of_nat (count_label df c l - count_label tr c l))"
    using gs by (simp add: group_split_def count_label_size)
  show "count_label tr c l + count_label va c l + count_label te c l = count_label df c l"
    using arg_cong [OF sum, of size] by (simp add: count_label_size)
qed




lemma length_two_labels:
  assumes "\<forall>r\<in>set xs. f r = a \<or> f r = b" and "a \<noteq> b"
  shows "length xs = length (filter (\<lambda>r. f r = a) xs) + length (filter (\<lambda>r. f r = b) xs)"
  using assms by (induction xs) auto

text \<open>
  C6. On a frame with distinct identifiers holding ten rows of one label and ten of another,
  and no other row, the ratios \<open>(0.7, 0.2, 0.1)\<close> give, whatever the generator draws, a
  train frame of 14 rows (7 and 7), a validation frame of 4 rows (2 and 2) and a test frame
  of 2 rows (1 and 1).
\<close>

theorem split_ten_and_ten:
  assumes lc: "label_column \<in> set (columns df)"
    and dist: "distinct (index df)"
    and ab: "a \<noteq> b"
    and na: "count_label df label_column a = 10"
    and nb: "count_label df label_column b = 10"
    and only: "\<forall>r\<in>set (rows df). cell r label_column = Some a \<or> cell r label_column = Some b"
  shows "\<exists>tr va te g'.
           split_to_train_val_test df label_column (7 / 10, 2 / 10, 1 / 10) g = Inr ((tr, va, te), g') \<and>
           length (rows tr) = 14 \<and> count_label tr label_column a = 7 \<and> count_label tr label_column b = 7 \<and>
           length (rows va) = 4 \<and> count_label va label_column a = 2 \<and> count_label va label_column b = 2 \<and>
           length (rows te) = 2 \<and> count_label te label_column a = 1 \<and> count_label te label_column b = 1"
proof -
  obtain tr va te g' where
    ret: "split_to_train_val_test df label_column (7 / 10, 2 / 10, 1 / 10) g = Inr ((tr, va, te), g')"
    using split_succeeds [OF lc, of "7 / 10" "2 / 10" "1 / 10" g] by auto
  have r1: "py_round (7 / 10 * 10) = 7" by (simp add: py_round_def)
  have r2: "py_round (1 / 10 / (2 / 10 + 1 / 10) * 3) = 1" by (simp add: py_round_def)
  have tra: "count_label tr label_column a = 7"
    using split_label_counts(1) [OF ret dist, of a] na r1 by simp
  have trb: "count_label tr label_column b = 7"
    using split_label_counts(1) [OF ret dist, of b] nb r1 by simp
  have tea: "count_label te label_column a = 1"
    using split_label_counts(2) [OF ret dist, of a] na tra r2 by simp
  have teb: "count_label te label_column b = 1"
    using split_label_counts(2) [OF ret dist, of b] nb trb r2 by simp
  have vaa: "count_label va label_column a = 2"
    using split_label_counts(3) [OF ret dist, of a] na tra tea by simp
  have vab: "count_label va label_column b = 2"
    using split_label_counts(3) [OF ret dist, of b] nb trb teb by simp
  note sub = split_rows_subset [OF ret]
  have len: "length (rows d) = count_label d label_column a + count_label d label_column b"
    if "set (rows d) \<subseteq> set (rows df)" for d :: "('a, 'b) dataframe"
    unfolding count_label_def
    by (rule length_two_labels) (use that only ab in auto)
  have "length (rows tr) = 14" using len [OF sub(1)] tra trb by simp
  moreover have "length (rows va) = 4" using len [OF sub(2)] vaa vab by simp
  moreover have "length (rows te) = 2" using len [OF sub(3)] tea teb by simp
  ultimately show ?thesis using ret tra trb vaa vab tea teb by blast
qed

theorem split_ten_and_ten_witness:
  "''label'' \<in> set (columns ten_and_ten) \<and> distinct (index ten_and_ten) \<and> ''A'' \<noteq> ''B'' \<and>
   count_label ten_and_ten ''label'' ''A'' = 10 \<and> count_label ten_and_ten ''label'' ''B'' = 10 \<and>
   (\<exists>tr va te g'.
      split_to_train_val_test ten_and_ten ''label'' (7 / 10, 2 / 10, 1 / 10) (\<lambda>k. k) = Inr ((tr, va, te), g') \<and>
      length (rows tr) = 14 \<and> count_label tr ''label'' ''A'' = 7 \<and> count_label tr ''label'' ''B'' = 7 \<and>
      length (rows va) = 4 \<and> count_label va ''label'' ''A'' = 2 \<and> count_label va ''label'' ''B'' = 2 \<and>
      length (rows te) = 2 \<and> count_label te ''label'' ''A'' = 1 \<and> count_label te ''label'' ''B'' = 1)"
proof -
  have lc: "''label'' \<in> set (columns ten_and_ten)" by code_simp
  have dist: "distinct (index ten_and_ten)" by code_simp
  have ab: "''A'' \<noteq> ''B''" by simp
  have na: "count_label ten_and_ten ''label'' ''A'' = 10" by code_simp
  have nb: "count_label ten_and_ten ''label'' ''B'' = 10" by code_simp
  have only: "\<forall>r\<in>set (rows ten_and_ten). cell r ''label'' = Some ''A'' \<or> cell r ''label'' = Some ''B''"
    by code_simp
  from split_ten_and_ten [OF lc dist ab na nb only, of "\<lambda>k. k"] lc dist ab na nb
  show ?thesis by blast
qed

section \<open>Ratios are not validated\<close>

text \<open>
  C4 as stated fails: ratios summing to 0.95 are accepted and the call returns.
\<close>

theorem ratio_sum_counterexample:
  "map_sum id fst
     (split_to_train_val_test three_of_one_class ''label'' (7 / 10, 2 / 10, 5 / 100) (\<lambda>k. 0))
     = Inr (\<lparr>columns = [''label''], rows = [(2, [(''label'', ''A'')]), (1, [(''label'', ''A'')])]\<rparr>,
            \<lparr>columns = [''label''], rows = [(0, [(''label'', ''A'')])]\<rparr>,
            \<lparr>columns = [''label''], rows = []\<rparr>)"
  by code_simp

text \<open>
  C4, amended. The ratios are never checked against a sum of 1: on a frame that has the label
  column, any ratios with \<open>0 \<le> train \<le> 1\<close>, \<open>val \<ge> 0\<close>, \<open>test \<ge> 0\<close> and
  \<open>val + test \<noteq> 0\<close> make the call return three frames, whatever their sum. A failure is
  an exception of the operations used (KeyError, ValueError, ZeroDivisionError) and carries
  no frames.
\<close>

theorem split_accepts_any_sum:
  assumes "label_column \<in> set (columns df)"
    and "0 \<le> s0" and "s0 \<le> 1" and "0 \<le> s1" and "0 \<le> s2" and "s1 + s2 \<noteq> 0"
  shows "\<exists>tr va te g'.
           split_to_train_val_test df label_column (s0, s1, s2) g = Inr ((tr, va, te), g')"
  using assms by (rule split_succeeds)

theorem split_accepts_any_sum_witness:
  "''label'' \<in> set (columns two_of_one_class) \<and> (7 / 10 :: rat) + 2 / 10 + 5 / 100 \<noteq> 1 \<and>
   (\<exists>tr va te g'.
      split_to_train_val_test two_of_one_class ''label'' (7 / 10, 2 / 10, 5 / 100) (\<lambda>k. k)
        = Inr ((tr, va, te), g'))"
  using split_accepts_any_sum [of "''label''" two_of_one_class "7 / 10" "2 / 10" "5 / 100" "\<lambda>k. k"]
  by (simp add: two_of_one_class_def)

section \<open>The generator is process-global\<close>

text \<open>
  A shuffle reads as many draws as it has iterations, and a sample one fewer than the frame
  has rows; generators that agree on those draws give the same rows.
\<close>

lemma shuffle_loop_agree:
  "\<forall>k<i. h k = g k \<Longrightarrow> fst (shuffle_loop i xs h) = fst (shuffle_loop i xs g)"
proof (induction i arbitrary: xs g h)
  case 0
  then show ?case by simp
next
  case (Suc i)
  have h0: "h 0 = g 0" using Suc.prems by simp
  have "fst (shuffle_loop i (swap xs (Suc i) (g 0 mod Suc (Suc i))) (\<lambda>k. h (Suc k)))
      = fst (shuffle_loop i (swap xs (Suc i) (g 0 mod Suc (Suc i))) (\<lambda>k. g (Suc k)))"
    using Suc.prems by (intro Suc.IH) simp
  then show ?case by (simp add: random_interval_def h0)
qed

lemma sample_agree:
  assumes "sample fr d g = Inr (d', g')"
    and "\<forall>k<length (rows d) - 1. h k = g k"
  shows "sample fr d h = Inr (d', \<lambda>k. h (k + (length (rows d) - 1)))"
proof -
  have p: "fst (permutation (length (rows d)) h) = fst (permutation (length (rows d)) g)"
    unfolding permutation_def using assms(2) by (rule shuffle_loop_agree)
  have t: "snd (permutation (length (rows d)) h) = (\<lambda>k. h (k + (length (rows d) - 1)))"
    by (rule permutation_tape)
  from assms(1) have "sample fr d h = Inr (d', snd (permutation (length (rows d)) h))"
    using p by (auto simp: sample_def choice_def Let_def split: if_splits prod.splits)
  then show ?thesis by (simp only: t)
qed

lemma split_label_agree:
  assumes "split_label df c splits lbl acc g = Inr (acc', g')"
  shows "\<exists>K. g' = (\<lambda>k. g (k + K)) \<and>
           (\<forall>h. (\<forall>k<K. h k = g k) \<longrightarrow>
                 split_label df c splits lbl acc h = Inr (acc', \<lambda>k. h (k + K)))"
proof -
  obtain s0 s1 s2 where splits: "splits = (s0, s1, s2)" by (cases splits) auto
  obtain tr va te where acc: "acc = (tr, va, te)" by (cases acc) auto
  let ?G = "mask_eq df c lbl"
  from assms obtain ltr g1 vt lte lva where s1: "sample s0 ?G g = Inr (ltr, g1)"
    and d1: "drop_index ?G (index ltr) = Inr vt"
    and nz: "s1 + s2 \<noteq> 0"
    and s2: "sample (s2 / (s1 + s2)) vt g1 = Inr (lte, g')"
    and d2: "drop_index vt (index lte) = Inr lva"
    and res: "acc' = (append_df tr ltr, append_df va lva, append_df te lte)"
    unfolding splits acc
    by (auto simp: split_label_def Let_def bind_err_eq_Inr truediv_def split: if_splits)
  define K1 where "K1 = length (rows ?G) - 1"
  define K2 where "K2 = length (rows vt) - 1"
  have g1: "g1 = (\<lambda>k. g (k + K1))" using sample_Inr(4) [OF s1] by (simp only: K1_def)
  have g2: "g' = (\<lambda>k. g1 (k + K2))" using sample_Inr(4) [OF s2] by (simp only: K2_def)
  have g': "g' = (\<lambda>k. g (k + (K2 + K1)))" by (simp add: g1 g2 ac_simps)
  have same: "split_label df c splits lbl acc h = Inr (acc', \<lambda>k. h (k + (K2 + K1)))"
    if agree: "\<forall>k<K2 + K1. h k = g k" for h
  proof -
    have "\<forall>k<length (rows ?G) - 1. h k = g k" using agree by (simp add: K1_def)
    from sample_agree [OF s1 this]
    have a: "sample s0 ?G h = Inr (ltr, \<lambda>k. h (k + K1))" by (simp only: K1_def)
    have "\<forall>k<length (rows vt) - 1. h (k + K1) = g1 k" using agree by (simp add: g1 K2_def)
    from sample_agree [OF s2, of "\<lambda>k. h (k + K1)", OF this]
    have "sample (s2 / (s1 + s2)) vt (\<lambda>k. h (k + K1)) = Inr (lte, \<lambda>k. h (k + K2 + K1))"
      by (simp only: K2_def)
    then have b: "sample (s2 / (s1 + s2)) vt (\<lambda>k. h (k + K1)) = Inr (lte, \<lambda>k. h (k + (K2 + K1)))"
      by (simp only: add.assoc)
    show ?thesis
      using nz by (simp add: splits acc split_label_def Let_def bind_err_def truediv_def a d1 b d2 res)
  qed
  show ?thesis using g' same by blast
qed

lemma for_labels_agree:
  assumes "for_labels df c splits ls acc g = Inr (acc', g')"
  shows "\<exists>K. g' = (\<lambda>k. g (k + K)) \<and>
           (\<forall>h. (\<forall>k<K. h k = g k) \<longrightarrow>
                 for_labels df c splits ls acc h = Inr (acc', \<lambda>k. h (k + K)))"
  using assms
proof (induction ls arbitrary: acc g)
  case Nil
  then have "g' = (\<lambda>k. g (k + 0))" "acc' = acc" by simp_all
  then have "g' = (\<lambda>k. g (k + 0)) \<and>
     (\<forall>h. (\<forall>k<0. h k = g k) \<longrightarrow> for_labels df c splits [] acc h = Inr (acc', \<lambda>k. h (k + 0)))"
    by simp
  then show ?case by blast
next
  case (Cons lbl ls)
  from Cons.prems obtain acc1 g1
    where it: "split_label df c splits lbl acc g = Inr (acc1, g1)"
      and rest: "for_labels df c splits ls acc1 g1 = Inr (acc', g')"
    by (auto simp: bind_err_eq_Inr)
  from split_label_agree [OF it] obtain K1 where K1: "g1 = (\<lambda>k. g (k + K1))"
    and same1: "\<And>h. \<forall>k<K1. h k = g k \<Longrightarrow>
        split_label df c splits lbl acc h = Inr (acc1, \<lambda>k. h (k + K1))"
    by blast
  from Cons.IH [OF rest] obtain K2 where K2: "g' = (\<lambda>k. g1 (k + K2))"
    and same2: "\<And>h. \<forall>k<K2. h k = g1 k \<Longrightarrow>
        for_labels df c splits ls acc1 h = Inr (acc', \<lambda>k. h (k + K2))"
    by blast
  have g': "g' = (\<lambda>k. g (k + (K2 + K1)))" by (simp add: K1 K2 ac_simps)
  have same: "for_labels df c splits (lbl # ls) acc h = Inr (acc', \<lambda>k. h (k + (K2 + K1)))"
    if agree: "\<forall>k<K2 + K1. h k = g k" for h
  proof -
    have a: "split_label df c splits lbl acc h = Inr (acc1, \<lambda>k. h (k + K1))"
      using agree by (intro same1) auto
    have "\<forall>k<K2. h (k + K1) = g1 k" using agree by (simp add: K1)
    then have b: "for_labels df c splits ls acc1 (\<lambda>k. h (k + K1)) = Inr (acc', \<lambda>k. h (k + K1 + K2))"
      using same2 [of "\<lambda>k. h (k + K1)"] by (simp add: ac_simps)
    show ?thesis by (simp add: bind_err_def a b ac_simps)
  qed
  show ?case using g' same by blast
qed

text \<open>
  C7 as stated fails: the call takes no seed or generator, and two calls with the same frame,
  label column and ratios, made one after the other, return different subsets.
\<close>

theorem repeated_call_counterexample:
  "call_twice two_of_one_class ''label'' (1 / 2, 1 / 4, 1 / 4) (\<lambda>k. k)
     = Inr ((\<lparr>columns = [''label''], rows = [(1, [(''label'', ''A'')])]\<rparr>,
             \<lparr>columns = [''label''], rows = [(0, [(''label'', ''A'')])]\<rparr>,
             \<lparr>columns = [''label''], rows = []\<rparr>),
            (\<lparr>columns = [''label''], rows = [(0, [(''label'', ''A'')])]\<rparr>,
             \<lparr>columns = [''label''], rows = [(1, [(''label'', ''A'')])]\<rparr>,
             \<lparr>columns = [''label''], rows = []\<rparr>))"
  by code_simp

text \<open>
  C7, amended. The randomness is the process-global generator; the call takes no seed or
  generator. A call that returns reads a finite number \<open>K\<close> of draws and leaves the generator
  advanced by \<open>K\<close>; every call on the same frame, label column and ratios whose generator
  supplies the same \<open>K\<close> draws returns the same three frames. So the result repeats when the
  generator is put back into the same state before the call; a call that starts from the
  advanced state need not repeat it.
\<close>

theorem split_same_draws:
  assumes "split_to_train_val_test df label_column splits g = Inr (out, g')"
  shows "\<exists>K. g' = (\<lambda>k. g (k + K)) \<and>
           (\<forall>h. (\<forall>k<K. h k = g k) \<longrightarrow>
                 split_to_train_val_test df label_column splits h = Inr (out, \<lambda>k. h (k + K)))"
proof -
  let ?ls = "unique (map (\<lambda>r. cell r label_column) (rows df))"
  from assms have lc: "label_column \<in> set (columns df)"
    by (auto simp: split_to_train_val_test_def bind_err_eq_Inr getitem_def split: if_splits)
  from assms lc obtain tr0 va0 te0 g1 tr g2 va g3 te where
    loop: "for_labels df label_column splits ?ls (DataFrame, DataFrame, DataFrame) g
        = Inr ((tr0, va0, te0), g1)"
    and s1: "sample 1 tr0 g1 = Inr (tr, g2)" and s2: "sample 1 va0 g2 = Inr (va, g3)"
    and s3: "sample 1 te0 g3 = Inr (te, g')" and out: "out = (tr, va, te)"
    by (auto simp: split_to_train_val_test_def bind_err_eq_Inr getitem_def)
  from for_labels_agree [OF loop] obtain K0 where K0: "g1 = (\<lambda>k. g (k + K0))"
    and same0: "\<And>h. \<forall>k<K0. h k = g k \<Longrightarrow>
        for_labels df label_column splits ?ls (DataFrame, DataFrame, DataFrame) h
          = Inr ((tr0, va0, te0), \<lambda>k. h (k + K0))"
    by blast
  define K1 where "K1 = length (rows tr0) - 1"
  define K2 where "K2 = length (rows va0) - 1"
  define K3 where "K3 = length (rows te0) - 1"
  have g2: "g2 = (\<lambda>k. g1 (k + K1))" using sample_Inr(4) [OF s1] by (simp only: K1_def)
  have g3: "g3 = (\<lambda>k. g2 (k + K2))" using sample_Inr(4) [OF s2] by (simp only: K2_def)
  have g4: "g' = (\<lambda>k. g3 (k + K3))" using sample_Inr(4) [OF s3] by (simp only: K3_def)
  have g': "g' = (\<lambda>k. g (k + (K3 + (K2 + (K1 + K0)))))"
    by (simp add: g4 g3 g2 K0 ac_simps)
  have same: "split_to_train_val_test df label_column splits h
      = Inr (out, \<lambda>k. h (k + (K3 + (K2 + (K1 + K0)))))"
    if agree: "\<forall>k<K3 + (K2 + (K1 + K0)). h k = g k" for h
  proof -
    have a: "for_labels df label_column splits ?ls (DataFrame, DataFrame, DataFrame) h
          = Inr ((tr0, va0, te0), \<lambda>k. h (k + K0))"
      using agree by (intro same0) auto
    have "\<forall>k<length (rows tr0) - 1. h (k + K0) = g1 k" using agree by (simp add: K0 K1_def)
    from sample_agree [OF s1, of "\<lambda>k. h (k + K0)", OF this]
    have "sample 1 tr0 (\<lambda>k. h (k + K0)) = Inr (tr, \<lambda>k. h (k + K1 + K0))"
      by (simp only: K1_def)
    then have b: "sample 1 tr0 (\<lambda>k. h (k + K0)) = Inr (tr, \<lambda>k. h (k + (K1 + K0)))"
      by (simp only: add.assoc)
    have "\<forall>k<length (rows va0) - 1. h (k + (K1 + K0)) = g2 k"
      using agree by (simp add: g2 K0 K2_def ac_simps)
    from sample_agree [OF s2, of "\<lambda>k. h (k + (K1 + K0))", OF this]
    have "sample 1 va0 (\<lambda>k. h (k + (K1 + K0))) = Inr (va, \<lambda>k. h (k + K2 + (K1 + K0)))"
      by (simp only: K2_def)
    then have c: "sample 1 va0 (\<lambda>k. h (k + (K1 + K0))) = Inr (va, \<lambda>k. h (k + (K2 + (K1 + K0))))"
      by (simp only: add.assoc)
    have "\<forall>k<length (rows te0) - 1. h (k + (K2 + (K1 + K0))) = g3 k"
      using agree by (simp add: g3 g2 K0 K3_def ac_simps)
    from sample_agree [OF s3, of "\<lambda>k. h (k + (K2 + (K1 + K0)))", OF this]
    have "sample 1 te0 (\<lambda>k. h (k + (K2 + (K1 + K0)))) = Inr (te, \<lambda>k. h (k + K3 + (K2 + (K1 + K0))))"
      by (simp only: K3_def)
    then have d: "sample 1 te0 (\<lambda>k. h (k + (K2 + (K1 + K0))))
        = Inr (te, \<lambda>k. h (k + (K3 + (K2 + (K1 + K0)))))"
      by (simp only: add.assoc)
    show ?thesis
      using lc by (simp add: split_to_train_val_test_def getitem_def bind_err_def a b c d out)
  qed
  show ?thesis using g' same by blast
qed

theorem split_same_draws_witness:
  "map_sum id fst (split_to_train_val_test two_of_one_class ''label'' (1 / 2, 1 / 4, 1 / 4) (\<lambda>k. k))
     = Inr (\<lparr>columns = [''label''], rows = [(1, [(''label'', ''A'')])]\<rparr>,
            \<lparr>columns = [''label''], rows = [(0, [(''label'', ''A'')])]\<rparr>,
            \<lparr>columns = [''label''], rows = []\<rparr>) \<and>
   map_sum id fst
       (split_to_train_val_test two_of_one_class ''label'' (1 / 2, 1 / 4, 1 / 4)
          (\<lambda>k. if k = 0 then 0 else 7))
     = Inr (\<lparr>columns = [''label''], rows = [(1, [(''label'', ''A'')])]\<rparr>,
            \<lparr>columns = [''label''], rows = [(0, [(''label'', ''A'')])]\<rparr>,
            \<lparr>columns = [''label''], rows = []\<rparr>)"
proof -
  let ?out = "(\<lparr>columns = [''label''], rows = [(1 :: nat, [(''label'', ''A'')])]\<rparr>,
            \<lparr>columns = [''label''], rows = [(0 :: nat, [(''label'', ''A'')])]\<rparr>,
            \<lparr>columns = [''label''], rows = [] :: (nat, string) row list\<rparr>)"
  let ?call = "split_to_train_val_test two_of_one_class ''label'' (1 / 2, 1 / 4, 1 / 4)"
  have e: "map_sum id (\<lambda>(out, g'). (out, g' 0)) (?call (\<lambda>k. k)) = Inr (?out, 1)"
    by code_simp
  then obtain g' where ret: "?call (\<lambda>k. k) = Inr (?out, g')" and g0: "g' 0 = 1"
    by (cases "?call (\<lambda>k. k)") auto
  from split_same_draws [OF ret] obtain K where K: "g' = (\<lambda>k. k + K)"
    and same: "\<And>h. \<forall>k<K. h k = k \<Longrightarrow> ?call h = Inr (?out, \<lambda>k. h (k + K))"
    by blast
  have "K = 1" using g0 by (simp add: K)
  then have "?call (\<lambda>k. if k = 0 then 0 else 7) = Inr (?out, \<lambda>k. (if k + K = 0 then 0 else 7))"
    by (intro same) simp
  then show ?thesis using ret by simp
qed

end
